theory Spec2Isabelle
  imports Main "HOL-Library.Char_ord" "HOL-Library.List_Lexorder" "HOL-Library.Product_Lexorder"
begin

section \<open>Text, paths and the configuration\<close>

text \<open>
  A Python \<open>str\<close> is a sequence of Unicode code points, so text is a list of naturals
  (the tree renderer of \<open>Code_Compiler.py\<close> emits box-drawing characters beyond the
  8-bit range). \<open>lit\<close> turns an ASCII literal into such a text. The order on texts is
  the lexicographic order on code points, which is how Python compares strings.
\<close>

type_synonym str = "nat list"

definition lit :: "string \<Rightarrow> str" where
  "lit s = map of_char s"

text \<open>
  A \<open>pathlib.Path\<close> is the sequence of its parts; an absolute path starts with the part
  \<open>/\<close>. \<open>Path(".")\<close> has no parts. Joining a directory with an entry name appends a
  part, which is what \<open>Path.iterdir\<close> returns for every entry.
\<close>

type_synonym path = "str list"

fun join_str :: "str \<Rightarrow> str list \<Rightarrow> str" where
  "join_str sep [] = []"
| "join_str sep [x] = x"
| "join_str sep (x # y # ys) = x @ sep @ join_str sep (y # ys)"

definition path_str :: "path \<Rightarrow> str" where
  \<comment> \<open>\<open>str(path)\<close> on a POSIX system\<close>
  "path_str p =
     (case p of
        [] \<Rightarrow> lit ''.''
      | x # xs \<Rightarrow> if x = lit ''/'' then x @ join_str (lit ''/'') xs
                  else join_str (lit ''/'') p)"

definition path_name :: "path \<Rightarrow> str" where
  \<comment> \<open>\<open>path.name\<close>: the final part, empty for \<open>.\<close> and for the root\<close>
  "path_name p = (if p = [] \<or> p = [lit ''/''] then [] else last p)"

definition path_suffix :: "path \<Rightarrow> str" where
  \<comment> \<open>\<open>path.suffix\<close>: from the last dot of the name on, when that dot is neither the
      first nor the last character of the name\<close>
  "path_suffix p =
     (let name = path_name p;
          r = takeWhile (\<lambda>c. c \<noteq> 46) (rev name)
      in if length r = length name then []
         else if 0 < length name - length r - 1 \<and> r \<noteq> [] then 46 # rev r
         else [])"

fun relative_to :: "path \<Rightarrow> path \<Rightarrow> path option" where
  \<comment> \<open>\<open>path.relative_to(base)\<close>; \<open>None\<close> stands for the \<open>ValueError\<close>\<close>
  "relative_to p [] = Some p"
| "relative_to [] (b # bs) = None"
| "relative_to (x # xs) (b # bs) = (if x = b then relative_to xs bs else None)"

record report_type =
  rt_name :: "str option"
  rt_file_types :: "str list option"

record config =
  supported_types :: "str list"
  include_folders :: "str list"
  exclude_folders :: "str list"
  max_file_size :: int
  max_token_count :: "int option"
  report_types :: "(str \<times> report_type) list"
  results_dir :: str
  repo_dir :: str

definition DEFAULT_CONFIG :: config where
  "DEFAULT_CONFIG =
     \<lparr> supported_types = [lit ''.py'', lit ''.ts'', lit ''.js'', lit ''.md'', lit ''.txt''],
       include_folders = [],
       exclude_folders =
         [lit ''.git'', lit ''node_modules'', lit ''venv'', lit ''__pycache__'', lit ''.venv''],
       max_file_size = 1000000,
       max_token_count = None,
       report_types =
         [(lit ''1'',
           \<lparr> rt_name = Some (lit ''All Supported File Types''),
             rt_file_types = Some [lit ''py'', lit ''ts'', lit ''js'', lit ''md'', lit ''txt''] \<rparr>),
          (lit ''2'',
           \<lparr> rt_name = Some (lit ''Python, TypeScript, JavaScript''),
             rt_file_types = Some [lit ''py'', lit ''ts'', lit ''js''] \<rparr>)],
       results_dir = lit ''output'',
       repo_dir = lit ''repos'' \<rparr>"

section \<open>The file system\<close>

text \<open>
  What the program reads of the file system is a tree: a directory has a name, a flag
  telling whether it can be listed (\<open>iterdir\<close> raises \<open>PermissionError\<close> otherwise) and
  its entries in the order \<open>iterdir\<close> returns them; a regular file has a name, its size
  in bytes and, for each encoding, what \<open>open(..., encoding=e).read()\<close> gives. Symbolic
  links and special files are outside this model.
\<close>

datatype encoding = UTF8 | Latin1 | ASCII

datatype read_result = Decoded str | UnicodeDecodeError | ReadOSError

record file_data =
  st_size :: nat
  read_as :: "encoding \<Rightarrow> read_result"

datatype fsnode =
    File str file_data
  | Dir str bool "fsnode list"

fun node_name :: "fsnode \<Rightarrow> str" where
  "node_name (File n d) = n"
| "node_name (Dir n ok cs) = n"

fun is_file :: "fsnode \<Rightarrow> bool" where
  "is_file (File n d) = True"
| "is_file (Dir n ok cs) = False"

fun is_dir :: "fsnode \<Rightarrow> bool" where
  "is_dir (File n d) = False"
| "is_dir (Dir n ok cs) = True"

fun find_entry :: "str \<Rightarrow> fsnode list \<Rightarrow> fsnode option" where
  "find_entry n [] = None"
| "find_entry n (c # cs) = (if node_name c = n then Some c else find_entry n cs)"

fun fs_lookup :: "fsnode \<Rightarrow> path \<Rightarrow> fsnode option" where
  \<comment> \<open>the node reached from a directory along a relative path\<close>
  "fs_lookup node [] = Some node"
| "fs_lookup (File n d) (x # xs) = None"
| "fs_lookup (Dir n ok cs) (x # xs) =
     (case find_entry x cs of None \<Rightarrow> None | Some c \<Rightarrow> fs_lookup c xs)"

section \<open>Path filtering and the directory scan\<close>

definition should_include_path :: "config \<Rightarrow> path \<Rightarrow> path \<Rightarrow> bool" where
  "should_include_path cfg base_directory p =
     (case relative_to p base_directory of
        None \<Rightarrow> False
      | Some path_parts \<Rightarrow>
          if list_ex (\<lambda>excluded. excluded \<in> set path_parts) (exclude_folders cfg) then False
          else if include_folders cfg = [] then True
          else list_ex (\<lambda>included. included \<in> set path_parts) (include_folders cfg))"

text \<open>
  \<open>scan_directory\<close> is a generator; the list is the sequence of paths it yields. The
  directory is given by its path and by its node in the tree; \<open>scan_items\<close> is the
  loop over the entries of the directory. A directory that cannot be listed yields
  nothing (the \<open>PermissionError\<close> is caught and logged).
\<close>

fun scan_directory :: "config \<Rightarrow> path \<Rightarrow> path \<Rightarrow> fsnode \<Rightarrow> path list"
  and scan_items :: "config \<Rightarrow> path \<Rightarrow> path \<Rightarrow> fsnode list \<Rightarrow> path list" where
  "scan_directory cfg base directory (File n d) = []"
| "scan_directory cfg base directory (Dir n ok cs) =
     (if ok then scan_items cfg base directory cs else [])"
| "scan_items cfg base directory [] = []"
| "scan_items cfg base directory (item # rest) =
     (if is_dir item \<and> should_include_path cfg base (directory @ [node_name item])
      then scan_directory cfg base (directory @ [node_name item]) item
      else if is_file item
              \<and> path_suffix (directory @ [node_name item]) \<in> set (supported_types cfg)
              \<and> should_include_path cfg base (directory @ [node_name item])
      then [directory @ [node_name item]]
      else [])
     @ scan_items cfg base directory rest"

text \<open>
  The files a walker can reach: \<open>walk_to\<close> follows a relative path from a directory,
  listing every directory on the way. In a well-formed tree the entries of a directory
  have distinct names.
\<close>

fun walk_to :: "fsnode \<Rightarrow> path \<Rightarrow> fsnode option" where
  "walk_to node [] = Some node"
| "walk_to (File n d) (x # xs) = None"
| "walk_to (Dir n ok cs) (x # xs) =
     (if ok then (case find_entry x cs of None \<Rightarrow> None | Some c \<Rightarrow> walk_to c xs) else None)"

fun distinct_names :: "fsnode \<Rightarrow> bool" where
  "distinct_names (File n d) = True"
| "distinct_names (Dir n ok cs) = (distinct (map node_name cs) \<and> list_all distinct_names cs)"

section \<open>The directory tree renderer\<close>

text \<open>
  An exception that leaves the program is a value of type \<open>error\<close>. The renderer
  does not catch what \<open>iterdir\<close> raises.
\<close>

datatype error = PermissionError | NotADirectoryError

text \<open>
  The connectors are the box-drawing texts of the source: U+2514 or U+251C followed by
  two U+2500 and a space; the indentation is four spaces, or U+2502 and three spaces.
\<close>

definition last_glyph :: str where "last_glyph = [9492, 9472, 9472, 32]"
definition mid_glyph :: str where "mid_glyph = [9500, 9472, 9472, 32]"
definition last_indent :: str where "last_indent = [32, 32, 32, 32]"
definition mid_indent :: str where "mid_indent = [9474, 32, 32, 32]"

definition sorted_items :: "fsnode list \<Rightarrow> fsnode list" where
  "sorted_items cs = sort_key (\<lambda>x. (is_file x, node_name x)) cs"

text \<open>
  \<open>structure_loop\<close> is the loop over \<open>enumerate(items)\<close>; it carries the text built
  so far. \<open>len_items\<close> is the length of the whole sorted listing.
\<close>

function generate_directory_structure :: "config \<Rightarrow> fsnode \<Rightarrow> str \<Rightarrow> error + str"
  and structure_loop :: "config \<Rightarrow> str \<Rightarrow> nat \<Rightarrow> (nat \<times> fsnode) list \<Rightarrow> str \<Rightarrow> error + str"
where
  "generate_directory_structure cfg (File n d) prefix = Inl NotADirectoryError"
| "generate_directory_structure cfg (Dir n ok cs) prefix =
     (if \<not> ok then Inl PermissionError
      else structure_loop cfg prefix (length (sorted_items cs))
             (enumerate 0 (sorted_items cs)) [])"
| "structure_loop cfg prefix len_items [] structure = Inr structure"
| "structure_loop cfg prefix len_items ((index, item) # rest) structure =
     (if node_name item \<in> set (exclude_folders cfg)
      then structure_loop cfg prefix len_items rest structure
      else
        let is_last = (int index = int len_items - 1);
            structure1 = structure @ prefix @ (if is_last then last_glyph else mid_glyph)
                           @ node_name item @ [10]
        in if is_dir item
           then (case generate_directory_structure cfg item
                        (prefix @ (if is_last then last_indent else mid_indent)) of
                   Inl e \<Rightarrow> Inl e
                 | Inr sub \<Rightarrow> structure_loop cfg prefix len_items rest (structure1 @ sub))
           else structure_loop cfg prefix len_items rest structure1)"
  by pat_completeness auto
termination
proof (relation "measure (\<lambda>x. case x of
           Inl (cfg, node, prefix) \<Rightarrow> 2 * size node + 1
         | Inr (cfg, prefix, n, items, s) \<Rightarrow> 2 * sum_list (map (\<lambda>p. Suc (size (snd p))) items))")
  show "wf (measure (\<lambda>x. case x of
           Inl (cfg, node, prefix) \<Rightarrow> 2 * size node + 1
         | Inr (cfg, prefix, n, items, s) \<Rightarrow> 2 * sum_list (map (\<lambda>p. Suc (size (snd p))) items)))"
    by simp
next
  fix cfg :: config and n ok cs and prefix :: str
  assume "\<not> \<not> ok"
  have "map (\<lambda>p. Suc (size (snd p))) (enumerate 0 (sorted_items cs))
      = map (\<lambda>c. Suc (size c)) (map snd (enumerate 0 (sorted_items cs)))"
    by (simp only: map_map comp_def)
  then have "sum_list (map (\<lambda>p. Suc (size (snd p))) (enumerate 0 (sorted_items cs)))
      = sum_list (map (\<lambda>c. Suc (size c)) (sorted_items cs))"
    by (simp only: map_snd_enumerate)
  also have "\<dots> = sum_list (map (\<lambda>c. Suc (size c)) cs)"
  proof -
    have ins: "sum_list (map g (insort_key f x xs)) = g x + sum_list (map g xs)"
      for g :: "fsnode \<Rightarrow> nat" and f :: "fsnode \<Rightarrow> bool \<times> str" and x xs
      by (induction xs) auto
    have "sum_list (map g (sort_key f xs)) = sum_list (map g xs)"
      for g :: "fsnode \<Rightarrow> nat" and f :: "fsnode \<Rightarrow> bool \<times> str" and xs
      by (induction xs) (auto simp: ins)
    then show ?thesis by (simp add: sorted_items_def)
  qed
  also have "\<dots> = size_list size cs"
    by (induction cs) auto
  finally show "(Inr (cfg, prefix, length (sorted_items cs), enumerate 0 (sorted_items cs), []),
        Inl (cfg, Dir n ok cs, prefix)) \<in> measure (\<lambda>x. case x of
           Inl (cfg, node, prefix) \<Rightarrow> 2 * size node + 1
         | Inr (cfg, prefix, n, items, s) \<Rightarrow> 2 * sum_list (map (\<lambda>p. Suc (size (snd p))) items))"
    by simp
qed auto

section \<open>The Python runtime\<close>

text \<open>
  Three library functions are parameters of the model: the token count of the
  \<open>tiktoken\<close> encoding, the Unicode table of alphanumeric code points (what \<open>\w\<close>
  matches besides the underscore) and \<open>str.capitalize\<close>.
\<close>

record pylib =
  tiktoken_count :: "str \<Rightarrow> nat"
  isalnum :: "nat \<Rightarrow> bool"
  capitalize :: "str \<Rightarrow> str"

definition count_tokens :: "pylib \<Rightarrow> str \<Rightarrow> nat" where
  "count_tokens lib text = tiktoken_count lib text"

section \<open>Regular expressions\<close>

text \<open>
  The four patterns of \<open>analyze_file\<close> are sequences of atoms: the word boundary
  \<open>\b\<close>, a literal character, and the greedy repetitions \<open>\s+\<close>, \<open>\w+\<close>, \<open>\s*\<close> of a
  character class. Matching is the backtracking search of \<open>re\<close>: \<open>m_seq\<close> lists, in the
  order the search tries them, the ways the pattern matches at the start of a text; each
  is the character before the end of the match and the text left. \<open>\s\<close> is Unicode white
  space. \<open>findall_count\<close> is the length of what \<open>re.findall\<close> returns: it takes the
  first match at the leftmost position, and goes on from its end.
\<close>

definition is_space :: "nat \<Rightarrow> bool" where
  "is_space c =
     ((9 \<le> c \<and> c \<le> 13) \<or> (28 \<le> c \<and> c \<le> 32) \<or> c = 133 \<or> c = 160 \<or> c = 5760
      \<or> (8192 \<le> c \<and> c \<le> 8202) \<or> c = 8232 \<or> c = 8233 \<or> c = 8239 \<or> c = 8287
      \<or> c = 12288)"

definition is_word :: "pylib \<Rightarrow> nat \<Rightarrow> bool" where
  "is_word lib c = (isalnum lib c \<or> c = 95)"

datatype cclass = Space | Word

fun in_class :: "pylib \<Rightarrow> cclass \<Rightarrow> nat \<Rightarrow> bool" where
  "in_class lib Space c = is_space c"
| "in_class lib Word c = is_word lib c"

datatype atom = WordB | Chr nat | Plus cclass | Star cclass

definition chars :: "string \<Rightarrow> atom list" where
  "chars s = map Chr (lit s)"

definition word_before :: "pylib \<Rightarrow> nat option \<Rightarrow> bool" where
  "word_before lib prev = (case prev of None \<Rightarrow> False | Some c \<Rightarrow> is_word lib c)"

definition word_after :: "pylib \<Rightarrow> str \<Rightarrow> bool" where
  "word_after lib s = (case s of [] \<Rightarrow> False | c # cs \<Rightarrow> is_word lib c)"

fun spans :: "(nat \<Rightarrow> bool) \<Rightarrow> nat option \<Rightarrow> str \<Rightarrow> (nat option \<times> str) list" where
  "spans P prev [] = [(prev, [])]"
| "spans P prev (c # cs) =
     (if P c then spans P (Some c) cs @ [(prev, c # cs)] else [(prev, c # cs)])"

fun m_atom :: "pylib \<Rightarrow> atom \<Rightarrow> nat option \<Rightarrow> str \<Rightarrow> (nat option \<times> str) list" where
  "m_atom lib WordB prev s = (if word_before lib prev \<noteq> word_after lib s then [(prev, s)] else [])"
| "m_atom lib (Chr c) prev s =
     (case s of [] \<Rightarrow> [] | x # xs \<Rightarrow> if x = c then [(Some x, xs)] else [])"
| "m_atom lib (Plus C) prev s =
     (case s of [] \<Rightarrow> []
      | x # xs \<Rightarrow> if in_class lib C x then spans (in_class lib C) (Some x) xs else [])"
| "m_atom lib (Star C) prev s = spans (in_class lib C) prev s"

fun m_seq :: "pylib \<Rightarrow> atom list \<Rightarrow> nat option \<Rightarrow> str \<Rightarrow> (nat option \<times> str) list" where
  "m_seq lib [] prev s = [(prev, s)]"
| "m_seq lib (a # as) prev s =
     concat (map (\<lambda>(p, r). m_seq lib as p r) (m_atom lib a prev s))"

function findall_count :: "pylib \<Rightarrow> atom list \<Rightarrow> nat option \<Rightarrow> str \<Rightarrow> nat" where
  "findall_count lib pat prev s =
     (case m_seq lib pat prev s of
        [] \<Rightarrow> (case s of [] \<Rightarrow> 0 | c # cs \<Rightarrow> findall_count lib pat (Some c) cs)
      | (p, r) # others \<Rightarrow>
          if length r < length s then Suc (findall_count lib pat p r)
          else (case s of [] \<Rightarrow> 1 | c # cs \<Rightarrow> Suc (findall_count lib pat (Some c) cs)))"
  by pat_completeness auto
termination
  by (relation "measure (\<lambda>(lib, pat, prev, s). length s)") auto

definition findall_len :: "pylib \<Rightarrow> atom list \<Rightarrow> str \<Rightarrow> nat" where
  "findall_len lib pat s = findall_count lib pat None s"

definition function_pattern :: "atom list" where
  "function_pattern = [WordB] @ chars ''def'' @ [Plus Space, Plus Word, Star Space, Chr 40]"

definition class_pattern :: "atom list" where
  "class_pattern = [WordB] @ chars ''class'' @ [Plus Space, Plus Word]"

definition method_pattern :: "atom list" where
  "method_pattern =
     [WordB] @ chars ''def'' @ [Plus Space, Plus Word, Star Space, Chr 40] @ chars ''self''"

definition variable_pattern :: "atom list" where
  "variable_pattern = [WordB, Plus Word, Star Space, Chr 61]"

section \<open>Reading and analysing a file\<close>

text \<open>
  \<open>read_loop\<close> is the loop of \<open>read_file_content\<close> over the encodings: the first
  encoding that decodes the file gives the content, a \<open>UnicodeDecodeError\<close> moves on
  to the next encoding, an \<open>OSError\<close> makes the method return the empty text (\<open>None\<close>
  here); when no encoding is left the content is still empty. The argument of
  \<open>read_file_content\<close> is what the file system holds at the path: nothing, a directory
  or a regular file. A missing \<open>max_token_count\<close> is the default \<open>float('inf')\<close>.
\<close>

fun read_loop :: "file_data \<Rightarrow> encoding list \<Rightarrow> str option" where
  "read_loop fd [] = Some []"
| "read_loop fd (e # es) =
     (case read_as fd e of
        Decoded c \<Rightarrow> Some c
      | UnicodeDecodeError \<Rightarrow> read_loop fd es
      | ReadOSError \<Rightarrow> None)"

definition read_file_content :: "pylib \<Rightarrow> config \<Rightarrow> fsnode option \<Rightarrow> str" where
  "read_file_content lib cfg file_path =
     (case file_path of
        None \<Rightarrow> []
      | Some (Dir n ok cs) \<Rightarrow> []
      | Some (File n fd) \<Rightarrow>
          if int (st_size fd) > max_file_size cfg then []
          else (case read_loop fd [UTF8, Latin1, ASCII] of
                  None \<Rightarrow> []
                | Some content \<Rightarrow>
                    if content \<noteq> []
                       \<and> (case max_token_count cfg of
                              None \<Rightarrow> False
                            | Some m \<Rightarrow> int (count_tokens lib content) > m)
                    then []
                    else content))"

text \<open>
  \<open>str.split(sep)\<close> for a separator of one character, \<open>str.strip()\<close> and
  \<open>str.startswith\<close>.
\<close>

fun split_str :: "nat \<Rightarrow> str \<Rightarrow> str list" where
  "split_str sep [] = [[]]"
| "split_str sep (c # cs) =
     (if c = sep then [] # split_str sep cs
      else (case split_str sep cs of
              [] \<Rightarrow> [[c]]
            | l # ls \<Rightarrow> (c # l) # ls))"

definition strip :: "str \<Rightarrow> str" where
  "strip s = rev (dropWhile is_space (rev (dropWhile is_space s)))"

definition startswith :: "str \<Rightarrow> str \<Rightarrow> bool" where
  "startswith s p = (take (length p) s = p)"

text \<open>
  The dictionary \<open>analyze_file\<close> returns; the empty dictionary is \<open>None\<close>. The keys
  \<open>file\<close> and \<open>functions\<close> carry a prime, their names being reserved words here.
  \<open>node_at\<close> resolves a path the scan yielded to the node it names; \<open>analyze_loop\<close> is
  the loop of \<open>compile_directory\<close> over the scanned files.
\<close>

record file_record =
  file' :: str
  language :: str
  content :: str
  lines :: nat
  characters :: nat
  functions' :: nat
  classes :: nat
  methods :: nat
  variables :: nat
  comments :: nat

definition node_at :: "fsnode \<Rightarrow> path \<Rightarrow> path \<Rightarrow> fsnode option" where
  "node_at root base p =
     (case relative_to p base of None \<Rightarrow> None | Some rel \<Rightarrow> fs_lookup root rel)"

definition analyze_file :: "pylib \<Rightarrow> config \<Rightarrow> fsnode \<Rightarrow> path \<Rightarrow> path \<Rightarrow> file_record option" where
  "analyze_file lib cfg root base file_path =
     (let content = read_file_content lib cfg (node_at root base file_path)
      in if content = [] then None
         else
           let lines = split_str 10 content
           in Some \<lparr> file' = path_str file_path,
                     language = drop 1 (path_suffix file_path),
                     content = content,
                     lines = length lines,
                     characters = length content,
                     functions' = findall_len lib function_pattern content,
                     classes = findall_len lib class_pattern content,
                     methods = findall_len lib method_pattern content,
                     variables = findall_len lib variable_pattern content,
                     comments = length (filter (\<lambda>line. startswith (strip line) (lit ''#'')) lines) \<rparr>)"

fun analyze_loop :: "pylib \<Rightarrow> config \<Rightarrow> fsnode \<Rightarrow> path \<Rightarrow> path list \<Rightarrow> file_record list
    \<Rightarrow> file_record list" where
  "analyze_loop lib cfg root base [] results = results"
| "analyze_loop lib cfg root base (file_path # files) results =
     (case analyze_file lib cfg root base file_path of
        Some file_analysis \<Rightarrow> analyze_loop lib cfg root base files (results @ [file_analysis])
      | None \<Rightarrow> analyze_loop lib cfg root base files results)"

definition compile_directory :: "pylib \<Rightarrow> config \<Rightarrow> fsnode \<Rightarrow> path \<Rightarrow> path \<Rightarrow> file_record list" where
  "compile_directory lib cfg root base directory =
     analyze_loop lib cfg root base (scan_directory cfg base directory root) []"

section \<open>The report\<close>

text \<open>
  \<open>show_nat\<close> and \<open>show_int\<close> are \<open>str\<close> of an integer, in decimal. The report type comes
  from the menu as an integer and from the HTTP interface as whatever the request
  holds; \<open>py_str\<close> is \<open>str(report_type)\<close>, which is also what an f-string puts in the text.
\<close>

function show_nat :: "nat \<Rightarrow> str" where
  "show_nat n = (if n < 10 then [48 + n] else show_nat (n div 10) @ [48 + n mod 10])"
  by pat_completeness auto
termination
  by (relation "measure id") auto

definition show_int :: "int \<Rightarrow> str" where
  "show_int i = (if i < 0 then 45 # show_nat (nat (- i)) else show_nat (nat i))"

datatype pyval = PyInt int | PyStr str

fun py_str :: "pyval \<Rightarrow> str" where
  "py_str (PyInt i) = show_int i"
| "py_str (PyStr s) = s"

text \<open>
  \<open>generate_report\<close> builds the text piece by piece. \<open>counts_loop\<close> is its loop that
  writes the file type counts, \<open>sections_loop\<close> its loop over the file types of the
  report type and \<open>files_loop\<close> the inner loop over the records, with the running
  \<open>file_count\<close>; \<open>file_header\<close> and \<open>file_body\<close> are the two f-strings of the inner
  loop. An entry of \<open>report_types\<close> is a dictionary with the optional keys \<open>name\<close> and
  \<open>file_types\<close>; it is falsy when it has neither. The result is \<open>Inl\<close> when the tree
  renderer raises.
\<close>

definition get_readme_content :: "pylib \<Rightarrow> config \<Rightarrow> fsnode \<Rightarrow> str" where
  "get_readme_content lib cfg directory =
     (case fs_lookup directory [lit ''README.md''] of
        None \<Rightarrow> []
      | Some readme \<Rightarrow> read_file_content lib cfg (Some readme))"

definition total_tokens :: "pylib \<Rightarrow> file_record list \<Rightarrow> nat" where
  "total_tokens lib results = sum_list (map (\<lambda>result. count_tokens lib (content result)) results)"

definition file_type_counts :: "file_record list \<Rightarrow> str \<Rightarrow> nat" where
  "file_type_counts results file_type = count_list (map language results) file_type"

fun counts_loop :: "pylib \<Rightarrow> file_record list \<Rightarrow> str list \<Rightarrow> str \<Rightarrow> str" where
  "counts_loop lib results [] report = report"
| "counts_loop lib results (file_type # rest) report =
     counts_loop lib results rest
       (report @ capitalize lib file_type @ lit '': ''
          @ show_nat (file_type_counts results file_type) @ lit ''\<newline>'')"

definition file_header :: "nat \<Rightarrow> nat \<Rightarrow> file_record \<Rightarrow> nat \<Rightarrow> str" where
  "file_header file_count total_files result file_tokens =
     lit ''### '' @ show_nat file_count @ lit ''/'' @ show_nat total_files @ lit '': ''
     @ file' result @ lit '' '' @ language result @ lit '' [''
     @ show_nat (lines result) @ lit '' '' @ show_nat (characters result) @ lit '' ''
     @ show_nat (functions' result) @ lit '' '' @ show_nat (classes result) @ lit '' ''
     @ show_nat (methods result) @ lit '' '' @ show_nat (variables result) @ lit '' ''
     @ show_nat (comments result) @ lit '' | Tokens: '' @ show_nat file_tokens @ lit '']\<newline>''"

definition file_body :: "file_record \<Rightarrow> str" where
  "file_body result =
     lit ''```'' @ language result @ lit ''\<newline>'' @ content result
     @ lit ''\<newline>```\<newline>\<newline>''"

fun files_loop :: "pylib \<Rightarrow> str \<Rightarrow> nat \<Rightarrow> file_record list \<Rightarrow> nat \<Rightarrow> str \<Rightarrow> str" where
  "files_loop lib file_type total_files [] file_count report = report"
| "files_loop lib file_type total_files (result # rest) file_count report =
     (if language result = file_type
      then let file_count1 = file_count + 1;
               file_tokens = count_tokens lib (content result)
           in files_loop lib file_type total_files rest file_count1
                (report @ file_header file_count1 total_files result file_tokens
                   @ file_body result)
      else files_loop lib file_type total_files rest file_count report)"

fun sections_loop :: "pylib \<Rightarrow> file_record list \<Rightarrow> str list \<Rightarrow> str \<Rightarrow> str" where
  "sections_loop lib results [] report = report"
| "sections_loop lib results (file_type # rest) report =
     sections_loop lib results rest
       (files_loop lib file_type
          (length (filter (\<lambda>result. language result = file_type) results)) results 0
          (report @ lit ''\<newline>## '' @ capitalize lib file_type
             @ lit '' File by File\<newline>''))"

text \<open>
  For stating properties: the token counts that the headers of the file sections
  carry, in the order of the report (the values of \<open>file_tokens\<close> in \<open>files_loop\<close>).
\<close>

definition section_tokens :: "pylib \<Rightarrow> str \<Rightarrow> file_record list \<Rightarrow> nat list" where
  "section_tokens lib file_type results =
     map (\<lambda>result. count_tokens lib (content result))
       (filter (\<lambda>result. language result = file_type) results)"


definition report_type_error :: "pyval \<Rightarrow> str" where
  "report_type_error report_type =
     lit ''Error: Report type '' @ py_str report_type @ lit '' not found in configuration''"

definition generate_report ::
  "pylib \<Rightarrow> config \<Rightarrow> fsnode \<Rightarrow> file_record list \<Rightarrow> str \<Rightarrow> pyval \<Rightarrow> error + str" where
  "generate_report lib cfg base_directory results directory_name report_type =
     (let readme_content = get_readme_content lib cfg base_directory;
          report0 = lit ''# Project: '' @ directory_name @ lit ''\<newline>\<newline>'';
          report1 = (if readme_content \<noteq> []
                     then report0 @ lit ''## README\<newline>\<newline>'' @ readme_content
                            @ lit ''\<newline>\<newline>''
                     else report0);
          report2 = report1 @ lit ''## Codebase Overview\<newline>\<newline>'';
          report3 = report2 @ lit ''Total Tokens: '' @ show_nat (total_tokens lib results)
                      @ lit ''\<newline>\<newline>'';
          report4 = report3 @ lit ''### File Type Counts:\<newline>''
      in case map_of (report_types cfg) (py_str report_type) of
           None \<Rightarrow> Inr (report_type_error report_type)
         | Some report_config \<Rightarrow>
             if rt_name report_config = None \<and> rt_file_types report_config = None
             then Inr (report_type_error report_type)
             else
               let file_types = (case rt_file_types report_config of None \<Rightarrow> [] | Some l \<Rightarrow> l);
                   report5 = counts_loop lib results file_types report4;
                   report6 = report5 @ lit ''\<newline>## Directory Structure\<newline>''
               in case generate_directory_structure cfg base_directory [] of
                    Inl e \<Rightarrow> Inl e
                  | Inr tree \<Rightarrow>
                      Inr (sections_loop lib results file_types
                             (report6 @ tree @ lit ''\<newline>## Detailed File Contents\<newline>'')))"

section \<open>Running a report\<close>

text \<open>
  \<open>Path(s)\<close> on a POSIX system: the parts between slashes, without the empty ones and
  the single dots (a leading double slash is not told apart from a single one).
  \<open>path_join\<close> is the operator \<open>/\<close> of two paths.

  What \<open>run_report\<close> needs of its surroundings is a \<open>world\<close>: what
  \<open>download_github_repo\<close> returns for a URL, the file system tree at a path, whether the
  results directory can be made and whether the report file can be written. The method
  leaves the new value of the field \<open>base_directory\<close> and an \<open>outcome\<close>: it returned
  early, it found no file, it wrote the report, the write failed with an \<open>OSError\<close> that
  \<open>save_report\<close> catches, or an exception left the method. \<open>resolve_source\<close> is the
  first step of \<open>run_report\<close>, up to the directory to analyse.
\<close>

definition Path :: "str \<Rightarrow> path" where
  "Path s =
     (if startswith s (lit ''/'') then [lit ''/''] else [])
     @ filter (\<lambda>part. part \<noteq> [] \<and> part \<noteq> lit ''.'') (split_str 47 s)"

definition path_join :: "path \<Rightarrow> path \<Rightarrow> path" where
  "path_join a b = (if b \<noteq> [] \<and> hd b = lit ''/'' then b else a @ b)"

record world =
  download_github_repo :: "str \<Rightarrow> path option"
  fs_at :: "path \<Rightarrow> fsnode option"
  mkdir_ok :: "path \<Rightarrow> bool"
  write_ok :: "path \<Rightarrow> bool"

datatype outcome =
    Aborted
  | NoFiles
  | Saved path str
  | SaveFailed path
  | Raised error

definition save_report :: "world \<Rightarrow> config \<Rightarrow> str \<Rightarrow> str \<Rightarrow> pyval \<Rightarrow> outcome" where
  "save_report w cfg report directory_name report_type =
     (let results_dir = Path (results_dir cfg);
          filename = directory_name @ lit ''_report_'' @ py_str report_type @ lit ''.md'';
          filepath = path_join results_dir (Path filename)
      in if \<not> mkdir_ok w results_dir then Raised PermissionError
         else if write_ok w filepath then Saved filepath report
         else SaveFailed filepath)"

definition is_url :: "str \<Rightarrow> bool" where
  "is_url source = (startswith source (lit ''http://'') \<or> startswith source (lit ''https://''))"

definition resolve_source :: "world \<Rightarrow> str \<Rightarrow> path option" where
  "resolve_source w source =
     (case (if is_url source then download_github_repo w source else Some (Path source)) of
        None \<Rightarrow> None
      | Some directory_path \<Rightarrow>
          if (case fs_at w directory_path of Some node \<Rightarrow> is_dir node | None \<Rightarrow> False)
          then Some directory_path
          else if is_url source then download_github_repo w source
          else None)"

definition run_report ::
  "pylib \<Rightarrow> world \<Rightarrow> config \<Rightarrow> path option \<Rightarrow> str \<Rightarrow> pyval \<Rightarrow> path option \<times> outcome" where
  "run_report lib w cfg base_directory source report_type =
     (case resolve_source w source of
        None \<Rightarrow> (base_directory, Aborted)
      | Some directory_path \<Rightarrow>
          (case fs_at w directory_path of
             None \<Rightarrow> (Some directory_path, NoFiles)
           | Some root \<Rightarrow>
               let results = compile_directory lib cfg root directory_path directory_path
               in if results \<noteq> []
                  then (case generate_report lib cfg root results (path_name directory_path)
                                report_type of
                          Inl e \<Rightarrow> (Some directory_path, Raised e)
                        | Inr report \<Rightarrow>
                            (Some directory_path,
                             save_report w cfg report (path_name directory_path) report_type))
                  else (Some directory_path, NoFiles)))"

section \<open>Sample inputs\<close>

text \<open>
  A runtime for concrete evaluation: one token per character, ASCII letters and digits
  as the alphanumeric table, ASCII capitalisation.
\<close>

definition ascii_alnum :: "nat \<Rightarrow> bool" where
  "ascii_alnum c = ((48 \<le> c \<and> c \<le> 57) \<or> (65 \<le> c \<and> c \<le> 90) \<or> (97 \<le> c \<and> c \<le> 122))"

definition ascii_capitalize :: "str \<Rightarrow> str" where
  "ascii_capitalize s =
     (case s of [] \<Rightarrow> []
      | c # cs \<Rightarrow> (if 97 \<le> c \<and> c \<le> 122 then c - 32 else c)
                  # map (\<lambda>x. if 65 \<le> x \<and> x \<le> 90 then x + 32 else x) cs)"

definition sample_lib :: pylib where
  "sample_lib = \<lparr> tiktoken_count = length, isalnum = ascii_alnum, capitalize = ascii_capitalize \<rparr>"

definition sample_file :: "string \<Rightarrow> string \<Rightarrow> fsnode" where
  "sample_file name text =
     File (lit name) \<lparr> st_size = length text, read_as = (\<lambda>e. Decoded (lit text)) \<rparr>"

definition sample_world :: "fsnode \<Rightarrow> world" where
  "sample_world root =
     \<lparr> download_github_repo = (\<lambda>url. None),
       fs_at = (\<lambda>p. if p = [lit ''proj''] then Some root else None),
       mkdir_ok = (\<lambda>p. True),
       write_ok = (\<lambda>p. True) \<rparr>"

text \<open>Small trees and configurations on which the theorems below are evaluated.\<close>

definition c2_config :: config where
  "c2_config = DEFAULT_CONFIG \<lparr> include_folders := [lit ''src''] \<rparr>"

definition c2_root :: fsnode where
  "c2_root =
     Dir (lit ''proj'') True
       [Dir (lit ''src'') True
          [Dir (lit ''venv'') True [sample_file ''x.py'' ''y''], sample_file ''b.py'' ''z'']]"

definition c6_root :: fsnode where
  "c6_root =
     Dir (lit ''proj'') True
       [sample_file ''a.py'' ''x'',
        Dir (lit ''src'') True [sample_file ''b.js'' ''z'', sample_file ''c.bin'' ''w'']]"

definition c10_entries :: "fsnode list" where
  "c10_entries = [sample_file ''venv'' ''x'', sample_file ''a.py'' ''y'']"


definition c4_config :: config where
  "c4_config = DEFAULT_CONFIG \<lparr> max_file_size := 3, max_token_count := Some 3 \<rparr>"

definition c4_file :: "nat \<Rightarrow> string \<Rightarrow> file_data" where
  "c4_file bytes text = \<lparr> st_size = bytes, read_as = (\<lambda>e. Decoded (lit text)) \<rparr>"

definition c4_root :: "file_data \<Rightarrow> fsnode" where
  "c4_root fd = Dir (lit ''proj'') True [File (lit ''f.py'') fd]"

definition c5_root :: fsnode where
  "c5_root =
     Dir (lit ''proj'') True [sample_file ''a.py'' ''x = 1'', sample_file ''README.md'' ''hi'']"

definition c9_root :: fsnode where
  "c9_root = Dir (lit ''proj'') True [sample_file ''m.py'' ''def f(self):\<newline>def g(x):'']"

section \<open>Properties of the scan and of the tree renderer\<close>

lemma relative_to_append: "relative_to p b = Some r \<Longrightarrow> relative_to (p @ q) b = Some (r @ q)"
  by (induction p b rule: relative_to.induct) (auto split: if_splits)

lemma relative_to_self: "relative_to (b @ r) b = Some r"
  by (induction b) auto

lemma relative_to_eq: "relative_to p b = Some r \<Longrightarrow> p = b @ r"
  by (induction p b arbitrary: r rule: relative_to.induct) (auto split: if_splits)

lemma scan_included:
  "p \<in> set (scan_directory cfg base d node) \<Longrightarrow> should_include_path cfg base p"
  "p \<in> set (scan_items cfg base d cs) \<Longrightarrow> should_include_path cfg base p"
  by (induction cfg base d node and cfg base d cs rule: scan_directory_scan_items.induct)
     (auto split: if_splits)

lemma scan_below:
  "p \<in> set (scan_directory cfg base d node) \<Longrightarrow> \<exists>r. r \<noteq> [] \<and> p = d @ r"
  "p \<in> set (scan_items cfg base d cs) \<Longrightarrow> \<exists>c r. c \<in> set cs \<and> p = d @ node_name c # r"
  by (induction cfg base d node and cfg base d cs arbitrary: p and p
        rule: scan_directory_scan_items.induct)
     (fastforce split: if_splits)+

lemma included_not_excluded:
  "should_include_path cfg base p \<Longrightarrow>
     \<exists>rel. relative_to p base = Some rel \<and> set rel \<inter> set (exclude_folders cfg) = {}"
  by (auto simp: should_include_path_def list_ex_iff split: option.splits if_splits)

lemma find_entry_Some: "find_entry x cs = Some c \<Longrightarrow> c \<in> set cs \<and> node_name c = x"
  by (induction cs) (auto split: if_splits)

lemma scan_items_member:
  "c \<in> set cs \<Longrightarrow>
   (is_dir c \<and> should_include_path cfg base (d @ [node_name c])
      \<and> p \<in> set (scan_directory cfg base (d @ [node_name c]) c))
   \<or> (is_file c \<and> path_suffix (d @ [node_name c]) \<in> set (supported_types cfg)
      \<and> should_include_path cfg base (d @ [node_name c]) \<and> p = d @ [node_name c]) \<Longrightarrow>
   p \<in> set (scan_items cfg base d cs)"
  by (induction cs) (auto, (cases c; simp)+)

lemma scan_member:
  "walk_to node rel = Some (File n fd) \<Longrightarrow> rel \<noteq> [] \<Longrightarrow> include_folders cfg = [] \<Longrightarrow>
   relative_to d base = Some pre \<Longrightarrow>
   set (pre @ rel) \<inter> set (exclude_folders cfg) = {} \<Longrightarrow>
   path_suffix (d @ rel) \<in> set (supported_types cfg) \<Longrightarrow>
   d @ rel \<in> set (scan_directory cfg base d node)"
proof (induction rel arbitrary: node d pre)
  case Nil
  then show ?case by simp
next
  case (Cons x xs)
  from Cons.prems(1) obtain m cs c where node: "node = Dir m True cs"
    and fe: "find_entry x cs = Some c" and wc: "walk_to c xs = Some (File n fd)"
    by (cases node) (auto split: if_splits option.splits)
  from fe have cin: "c \<in> set cs" and cn: "node_name c = x"
    by (auto dest: find_entry_Some)
  have rel: "relative_to (d @ [x]) base = Some (pre @ [x])"
    using Cons.prems(4) by (rule relative_to_append)
  have inc: "should_include_path cfg base (d @ [x])"
    using rel Cons.prems(3,5) by (auto simp: should_include_path_def list_ex_iff)
  have "d @ x # xs \<in> set (scan_items cfg base d cs)"
  proof (cases xs)
    case Nil
    with wc have c: "c = File n fd" by simp
    show ?thesis
      using cin by (rule scan_items_member) (use c cn inc Cons.prems(6) Nil in auto)
  next
    case (Cons y ys)
    with wc obtain m' ok' cs' where c: "c = Dir m' ok' cs'"
      by (cases c) auto
    have "(d @ [x]) @ xs \<in> set (scan_directory cfg base (d @ [x]) c)"
      using Cons.IH[OF wc _ Cons.prems(3) rel] Cons.prems(5,6) Cons by simp
    then show ?thesis
      using cin by (intro scan_items_member[OF cin]) (use c cn inc in auto)
  qed
  then show ?case using node by simp
qed

lemma scan_distinct:
  "distinct_names node \<Longrightarrow> distinct (scan_directory cfg base d node)"
  "distinct (map node_name cs) \<Longrightarrow> list_all distinct_names cs \<Longrightarrow>
     distinct (scan_items cfg base d cs)"
proof (induction cfg base d node and cfg base d cs rule: scan_directory_scan_items.induct)
  case (4 cfg base directory item rest)
  have dis: "p \<noteq> directory @ node_name item # r"
    if "p \<in> set (scan_items cfg base directory rest)" for p r
  proof
    assume eq: "p = directory @ node_name item # r"
    from scan_below(2)[OF that] obtain c r' where c: "c \<in> set rest"
      and "p = directory @ node_name c # r'" by blast
    with eq have nc: "node_name c = node_name item" by simp
    from c have "node_name c \<in> node_name ` set rest" by (rule imageI)
    with nc 4(3) show False by simp
  qed
  have d1: "distinct (scan_items cfg base directory rest)"
    using 4 by simp
  show ?case
  proof (cases "is_dir item \<and> should_include_path cfg base (directory @ [node_name item])")
    case True
    then have "distinct (scan_directory cfg base (directory @ [node_name item]) item)"
      using 4 by simp
    moreover have "set (scan_directory cfg base (directory @ [node_name item]) item)
        \<inter> set (scan_items cfg base directory rest) = {}"
      using dis by (fastforce dest!: scan_below(1))
    ultimately show ?thesis using True d1 by simp
  next
    case False
    then show ?thesis using d1 dis by auto
  qed
qed auto

lemma count_list_distinct: "distinct xs \<Longrightarrow> x \<in> set xs \<Longrightarrow> count_list xs x = 1"
  by (induction xs) auto

lemma structure_loop_drop_name:
  "name \<in> set (exclude_folders cfg) \<Longrightarrow>
   structure_loop cfg prefix len items acc
     = structure_loop cfg prefix len
         (filter (\<lambda>(index, item). node_name item \<noteq> name) items) acc"
proof (induction items arbitrary: acc)
  case Nil
  then show ?case by simp
next
  case (Cons a items)
  obtain index item where a: "a = (index, item)" by (cases a)
  show ?case
    using Cons by (auto simp: a Let_def split: sum.splits)
qed

text \<open>
  Claim C2. No path that \<open>scan_directory\<close> yields has, among the parts of its path
  relative to the scan root, an entry of \<open>exclude_folders\<close>, whatever \<open>include_folders\<close>
  holds: the exclusion test of \<open>should_include_path\<close> comes first and returns False.
  (The claim asks for a non-empty \<open>exclude_folders\<close>; the statement holds for the empty
  list too.)
\<close>

theorem excluded_component_never_scanned:
  assumes "p \<in> set (scan_directory cfg base base root)"
  shows "\<exists>rel. relative_to p base = Some rel \<and> set rel \<inter> set (exclude_folders cfg) = {}"
  using assms by (intro included_not_excluded scan_included(1))

theorem excluded_component_never_scanned_witness:
  "[lit ''proj'', lit ''src'', lit ''b.py'']
     \<in> set (scan_directory c2_config [lit ''proj''] [lit ''proj''] c2_root)
   \<and> (\<exists>rel. relative_to [lit ''proj'', lit ''src'', lit ''b.py''] [lit ''proj''] = Some rel
          \<and> set rel \<inter> set (exclude_folders c2_config) = {})"
proof -
  have h: "[lit ''proj'', lit ''src'', lit ''b.py'']
     \<in> set (scan_directory c2_config [lit ''proj''] [lit ''proj''] c2_root)"
    by (simp add: c2_config_def c2_root_def DEFAULT_CONFIG_def sample_file_def
          should_include_path_def path_suffix_def path_name_def lit_def)
  from excluded_component_never_scanned [OF h] h show ?thesis by blast
qed

text \<open>
  Claim C6. With an empty \<open>include_folders\<close>, a regular file that the walk reaches under
  the scan root (every directory on the way can be listed), whose suffix is in
  \<open>supported_types\<close> and none of whose relative path parts is in \<open>exclude_folders\<close>, is
  yielded by \<open>scan_directory\<close> exactly once. The entries of a directory have distinct
  names, as in a file system. The file set is what the walk yields; the limits on size
  and tokens are applied afterwards, by \<open>analyze_file\<close>.
\<close>

theorem supported_file_scanned_exactly_once:
  assumes "include_folders cfg = []"
    and "distinct_names root"
    and "walk_to root rel = Some (File n fd)"
    and "rel \<noteq> []"
    and "path_suffix (base @ rel) \<in> set (supported_types cfg)"
    and "set rel \<inter> set (exclude_folders cfg) = {}"
  shows "count_list (scan_directory cfg base base root) (base @ rel) = 1"
proof -
  have "relative_to base base = Some []"
    using relative_to_self [of base "[]"] by simp
  then have "base @ rel \<in> set (scan_directory cfg base base root)"
    using assms by (intro scan_member [where pre = "[]"]) auto
  moreover have "distinct (scan_directory cfg base base root)"
    using assms(2) by (rule scan_distinct(1))
  ultimately show ?thesis
    by (simp add: count_list_distinct)
qed

theorem supported_file_scanned_exactly_once_witness:
  "count_list (scan_directory DEFAULT_CONFIG [lit ''proj''] [lit ''proj''] c6_root)
     ([lit ''proj''] @ [lit ''src'', lit ''b.js'']) = 1"
proof -
  have "include_folders DEFAULT_CONFIG = []"
    by (simp add: DEFAULT_CONFIG_def)
  moreover have "distinct_names c6_root"
    by (simp add: c6_root_def sample_file_def lit_def)
  moreover have "walk_to c6_root [lit ''src'', lit ''b.js'']
      = Some (File (lit ''b.js'') \<lparr> st_size = 1, read_as = (\<lambda>e. Decoded (lit ''z'')) \<rparr>)"
    by (simp add: c6_root_def sample_file_def lit_def)
  moreover have "path_suffix ([lit ''proj''] @ [lit ''src'', lit ''b.js''])
      \<in> set (supported_types DEFAULT_CONFIG)"
    by (simp add: DEFAULT_CONFIG_def path_suffix_def path_name_def lit_def)
  moreover have "set [lit ''src'', lit ''b.js''] \<inter> set (exclude_folders DEFAULT_CONFIG) = {}"
    by (simp add: DEFAULT_CONFIG_def lit_def)
  ultimately show ?thesis
    by (intro supported_file_scanned_exactly_once) simp_all
qed

text \<open>
  Claim C8. The renderer decides \<open>is_last\<close> from the index in the whole sorted listing,
  before entries named in \<open>exclude_folders\<close> are skipped. A directory holding \<open>src\<close> and
  \<open>venv\<close> shows one entry, \<open>src\<close>, and draws it with the connector of a non-last
  sibling; no entry gets the last-sibling connector.
\<close>

theorem last_shown_entry_gets_non_last_glyph:
  "generate_directory_structure DEFAULT_CONFIG
     (Dir (lit ''proj'') True [Dir (lit ''src'') True [], Dir (lit ''venv'') True []]) []
   = Inr (mid_glyph @ lit ''src'' @ lit ''\<newline>'')"
  by (simp add: sorted_items_def DEFAULT_CONFIG_def lit_def enumerate_eq_zip)

text \<open>
  Claim C10. A file whose own name is an entry of \<open>exclude_folders\<close> is never yielded by
  the scan, in whatever directory under the root it lies, and the tree renderer skips
  it: rendering a directory gives what the loop gives on the sorted listing without the
  entries of that name (the other entries keep their indices).
\<close>

theorem file_named_as_excluded_folder_is_dropped:
  assumes "name \<in> set (exclude_folders cfg)"
  shows "base @ rel @ [name] \<notin> set (scan_directory cfg base base root)
       \<and> generate_directory_structure cfg (Dir n True cs) prefix
         = structure_loop cfg prefix (length (sorted_items cs))
             (filter (\<lambda>(index, item). node_name item \<noteq> name) (enumerate 0 (sorted_items cs))) []"
proof
  show "base @ rel @ [name] \<notin> set (scan_directory cfg base base root)"
  proof
    assume "base @ rel @ [name] \<in> set (scan_directory cfg base base root)"
    then obtain r where "relative_to (base @ rel @ [name]) base = Some r"
      and "set r \<inter> set (exclude_folders cfg) = {}"
      using included_not_excluded scan_included(1) by blast
    moreover have "relative_to (base @ rel @ [name]) base = Some (rel @ [name])"
      by (rule relative_to_self)
    ultimately have "name \<notin> set (exclude_folders cfg)" by auto
    with assms show False by simp
  qed
  show "generate_directory_structure cfg (Dir n True cs) prefix
         = structure_loop cfg prefix (length (sorted_items cs))
             (filter (\<lambda>(index, item). node_name item \<noteq> name) (enumerate 0 (sorted_items cs))) []"
    using structure_loop_drop_name [OF assms] by simp
qed

theorem file_named_as_excluded_folder_is_dropped_witness:
  "lit ''venv'' \<in> set (exclude_folders DEFAULT_CONFIG)
   \<and> [lit ''proj''] @ [] @ [lit ''venv'']
       \<notin> set (scan_directory DEFAULT_CONFIG [lit ''proj''] [lit ''proj'']
                (Dir (lit ''proj'') True c10_entries))
   \<and> generate_directory_structure DEFAULT_CONFIG (Dir (lit ''proj'') True c10_entries) []
       = Inr (mid_glyph @ lit ''a.py'' @ lit ''\<newline>'')"
proof -
  have h: "lit ''venv'' \<in> set (exclude_folders DEFAULT_CONFIG)"
    by (simp add: DEFAULT_CONFIG_def)
  have s: "sorted_items c10_entries = [sample_file ''a.py'' ''y'', sample_file ''venv'' ''x'']"
    by (simp add: sorted_items_def c10_entries_def sample_file_def lit_def)
  have f: "filter (\<lambda>(index, item). node_name item \<noteq> lit ''venv'')
             (enumerate 0 [sample_file ''a.py'' ''y'', sample_file ''venv'' ''x''])
           = [(0, sample_file ''a.py'' ''y'')]"
    by (simp add: sample_file_def lit_def)
  have l: "structure_loop DEFAULT_CONFIG [] 2 [(0, sample_file ''a.py'' ''y'')] []
           = Inr (mid_glyph @ lit ''a.py'' @ lit ''\<newline>'')"
    by (simp add: sample_file_def DEFAULT_CONFIG_def lit_def)
  note t = file_named_as_excluded_folder_is_dropped
         [OF h, of "[lit ''proj'']" "[]" "Dir (lit ''proj'') True c10_entries"
            "lit ''proj''" c10_entries "[]"]
  have len: "length (sorted_items c10_entries) = 2"
    by (simp add: s)
  from t have "generate_directory_structure DEFAULT_CONFIG (Dir (lit ''proj'') True c10_entries) []
       = structure_loop DEFAULT_CONFIG [] (length (sorted_items c10_entries))
           (filter (\<lambda>(index, item). node_name item \<noteq> lit ''venv'')
              (enumerate 0 (sorted_items c10_entries))) []"
    by (rule conjunct2)
  then have "generate_directory_structure DEFAULT_CONFIG (Dir (lit ''proj'') True c10_entries) []
       = Inr (mid_glyph @ lit ''a.py'' @ lit ''\<newline>'')"
    unfolding len unfolding s f l .
  with t h show ?thesis by blast
qed

section \<open>Properties of the analysis\<close>


lemma analyze_file_None:
  "analyze_file lib cfg root base p = None \<longleftrightarrow> read_file_content lib cfg (node_at root base p) = []"
  by (auto simp: analyze_file_def Let_def)






text \<open>
  Claim C4. For a regular file that decodes to a non-empty text: at a size of exactly
  \<open>max_file_size\<close> bytes the file is analysed (when the token limit lets it through) and
  at one byte more it is not; with \<open>max_token_count\<close> configured, at exactly that many
  tokens the file is analysed (when the size limit lets it through) and at one token
  more it is not. Both tests are strict comparisons.
\<close>

theorem size_and_token_limits_are_inclusive:
  assumes "node_at root base p = Some (File n fd)"
    and "read_loop fd [UTF8, Latin1, ASCII] = Some c"
    and "c \<noteq> []"
  shows "(int (st_size fd) = max_file_size cfg
            \<and> (\<forall>m. max_token_count cfg = Some m \<longrightarrow> int (count_tokens lib c) \<le> m)
          \<longrightarrow> (\<exists>r. analyze_file lib cfg root base p = Some r \<and> content r = c))
       \<and> (int (st_size fd) = max_file_size cfg + 1
          \<longrightarrow> analyze_file lib cfg root base p = None)
       \<and> (max_token_count cfg = Some (int (count_tokens lib c))
            \<and> int (st_size fd) \<le> max_file_size cfg
          \<longrightarrow> (\<exists>r. analyze_file lib cfg root base p = Some r \<and> content r = c))
       \<and> (max_token_count cfg = Some (int (count_tokens lib c) - 1)
          \<longrightarrow> analyze_file lib cfg root base p = None)"
  using assms
  by (auto simp: analyze_file_def read_file_content_def Let_def split: option.splits)

theorem size_and_token_limits_are_inclusive_witness:
  "int (st_size (c4_file 3 ''abc'')) = max_file_size c4_config
   \<and> max_token_count c4_config = Some (int (count_tokens sample_lib (lit ''abc'')))
   \<and> (\<exists>r. analyze_file sample_lib c4_config (c4_root (c4_file 3 ''abc'')) [lit ''proj'']
              [lit ''proj'', lit ''f.py''] = Some r \<and> content r = lit ''abc'')
   \<and> int (st_size (c4_file 4 ''abc'')) = max_file_size c4_config + 1
   \<and> analyze_file sample_lib c4_config (c4_root (c4_file 4 ''abc'')) [lit ''proj'']
         [lit ''proj'', lit ''f.py''] = None
   \<and> max_token_count c4_config = Some (int (count_tokens sample_lib (lit ''abcd'')) - 1)
   \<and> analyze_file sample_lib c4_config (c4_root (c4_file 3 ''abcd'')) [lit ''proj'']
         [lit ''proj'', lit ''f.py''] = None"
proof -
  have n: "node_at (c4_root fd) [lit ''proj''] [lit ''proj'', lit ''f.py'']
             = Some (File (lit ''f.py'') fd)" for fd
    by (simp add: node_at_def c4_root_def)
  have r: "read_loop (c4_file k t) [UTF8, Latin1, ASCII] = Some (lit t)" for k t
    by (simp add: c4_file_def)
  have s3: "int (st_size (c4_file 3 ''abc'')) = max_file_size c4_config"
    and s4: "int (st_size (c4_file 4 ''abc'')) = max_file_size c4_config + 1"
    and s3': "int (st_size (c4_file 3 ''abcd'')) \<le> max_file_size c4_config"
    by (simp_all add: c4_file_def c4_config_def)
  have t3: "max_token_count c4_config = Some (int (count_tokens sample_lib (lit ''abc'')))"
    and t4: "max_token_count c4_config = Some (int (count_tokens sample_lib (lit ''abcd'')) - 1)"
    by (simp_all add: c4_config_def count_tokens_def sample_lib_def lit_def)
  have ne: "lit ''abc'' \<noteq> []" "lit ''abcd'' \<noteq> []"
    by (simp_all add: lit_def)
  from size_and_token_limits_are_inclusive [OF n r ne(1), of 3 c4_config sample_lib] s3 t3
  have a: "\<exists>r. analyze_file sample_lib c4_config (c4_root (c4_file 3 ''abc'')) [lit ''proj'']
              [lit ''proj'', lit ''f.py''] = Some r \<and> content r = lit ''abc''"
    by simp
  from size_and_token_limits_are_inclusive [OF n r ne(1), of 4 c4_config sample_lib] s4
  have b: "analyze_file sample_lib c4_config (c4_root (c4_file 4 ''abc'')) [lit ''proj'']
         [lit ''proj'', lit ''f.py''] = None"
    by blast
  from size_and_token_limits_are_inclusive [OF n r ne(2), of 3 c4_config sample_lib] t4
  have c: "analyze_file sample_lib c4_config (c4_root (c4_file 3 ''abcd'')) [lit ''proj'']
         [lit ''proj'', lit ''f.py''] = None"
    by blast
  from a b c s3 s4 t3 t4 show ?thesis by blast
qed

section \<open>Properties of the report\<close>

lemma files_loop_headers:
  "files_loop lib file_type total_files results file_count report
     = report @ concat (map (\<lambda>(i, result, file_tokens).
                           file_header i total_files result file_tokens @ file_body result)
         (zip [Suc file_count ..< Suc file_count + length (section_tokens lib file_type results)]
            (zip (filter (\<lambda>result. language result = file_type) results)
                 (section_tokens lib file_type results))))"
proof (induction results arbitrary: file_count report)
  case Nil
  then show ?case by (simp add: section_tokens_def)
next
  case (Cons result rest)
  show ?case
  proof (cases "language result = file_type")
    case True
    have "[Suc file_count ..< Suc file_count + Suc n] = Suc file_count # [Suc (Suc file_count) ..< Suc (Suc file_count) + n]" for n
      by (simp add: upt_rec)
    then show ?thesis
      using True Cons.IH [of "Suc file_count"]
      by (simp add: section_tokens_def Let_def)
  next
    case False
    then show ?thesis
      using Cons.IH [of file_count] by (simp add: section_tokens_def)
  qed
qed



text \<open>
  Claim C1 (as amended). When the key is not in \<open>report_types\<close>, \<open>generate_report\<close>
  raises nothing: what it returns in place of the report is the text
  \<open>Error: Report type <key> not found in configuration\<close>.
\<close>

theorem unknown_report_type_returns_error_text:
  assumes "map_of (report_types cfg) (py_str report_type) = None"
  shows "generate_report lib cfg root results directory_name report_type
         = Inr (lit ''Error: Report type '' @ py_str report_type
                  @ lit '' not found in configuration'')"
  using assms by (simp add: generate_report_def report_type_error_def Let_def)

theorem unknown_report_type_returns_error_text_witness:
  "map_of (report_types DEFAULT_CONFIG) (py_str (PyStr (lit ''99''))) = None
   \<and> generate_report sample_lib DEFAULT_CONFIG c5_root [] (lit ''proj'') (PyStr (lit ''99''))
       = Inr (lit ''Error: Report type 99 not found in configuration'')"
proof -
  have h: "map_of (report_types DEFAULT_CONFIG) (py_str (PyStr (lit ''99''))) = None"
    by (simp add: DEFAULT_CONFIG_def lit_def)
  from unknown_report_type_returns_error_text [OF h, of sample_lib c5_root "[]" "lit ''proj''"] h
  show ?thesis by (simp add: lit_def)
qed

theorem unknown_report_type_is_fatal_counterexample:
  "run_report sample_lib (sample_world c5_root) DEFAULT_CONFIG None (lit ''proj'')
     (PyStr (lit ''99''))
   = (Some [lit ''proj''],
      Saved [lit ''output'', lit ''proj_report_99.md'']
        (lit ''Error: Report type 99 not found in configuration''))"
proof -
  have r: "compile_directory sample_lib DEFAULT_CONFIG c5_root [lit ''proj''] [lit ''proj''] \<noteq> []"
    by (simp add: compile_directory_def c5_root_def sample_file_def DEFAULT_CONFIG_def
        should_include_path_def path_suffix_def path_name_def analyze_file_def
        read_file_content_def node_at_def Let_def lit_def)
  have g: "generate_report sample_lib DEFAULT_CONFIG c5_root results (lit ''proj'')
             (PyStr (lit ''99''))
           = Inr (lit ''Error: Report type 99 not found in configuration'')" for results
    by (simp add: generate_report_def report_type_error_def Let_def DEFAULT_CONFIG_def lit_def)
  have s: "save_report (sample_world c5_root) DEFAULT_CONFIG report (lit ''proj'')
             (PyStr (lit ''99''))
           = Saved [lit ''output'', lit ''proj_report_99.md''] report" for report
    by (simp add: save_report_def sample_world_def DEFAULT_CONFIG_def Path_def path_join_def
          startswith_def Let_def lit_def)
  have p: "resolve_source (sample_world c5_root) (lit ''proj'') = Some [lit ''proj'']"
    by (simp add: resolve_source_def sample_world_def is_url_def startswith_def Path_def
          c5_root_def lit_def)
  have n: "path_name [lit ''proj''] = lit ''proj''"
    by (simp add: path_name_def lit_def)
  have f: "fs_at (sample_world c5_root) [lit ''proj''] = Some c5_root"
    by (simp add: sample_world_def)
  show ?thesis
    using r by (simp add: run_report_def p f n g s)
qed








section \<open>Properties of the pattern counts\<close>

declare findall_count.simps [simp del]

lemma findall_count_Nil:
  "m_seq lib pat prev [] = [] \<Longrightarrow> findall_count lib pat prev [] = 0"
  by (subst findall_count.simps) simp

lemma findall_count_skip:
  "m_seq lib pat prev (c # cs) = [] \<Longrightarrow>
     findall_count lib pat prev (c # cs) = findall_count lib pat (Some c) cs"
  by (subst findall_count.simps) simp

lemma findall_count_match:
  "m_seq lib pat prev s = (p, r) # others \<Longrightarrow> length r < length s \<Longrightarrow>
     findall_count lib pat prev s = Suc (findall_count lib pat p r)"
  by (subst findall_count.simps) simp

lemma spans_shape:
  "(p, r) \<in> set (spans P prev s) \<Longrightarrow>
     \<exists>xs. s = xs @ r \<and> (\<forall>x \<in> set xs. P x) \<and> p = (if xs = [] then prev else Some (last xs))"
proof (induction s arbitrary: prev)
  case Nil
  then show ?case by simp
next
  case (Cons c cs)
  show ?case
  proof (cases "(p, r) = (prev, c # cs)")
    case True
    then show ?thesis by (intro exI [of _ "[]"]) simp
  next
    case False
    with Cons.prems have "P c" and "(p, r) \<in> set (spans P (Some c) cs)"
      by (auto split: if_splits)
    from Cons.IH [OF this(2)] obtain xs where "cs = xs @ r" and "\<forall>x \<in> set xs. P x"
      and "p = (if xs = [] then Some c else Some (last xs))"
      by blast
    with \<open>P c\<close> show ?thesis
      by (intro exI [of _ "c # xs"]) simp
  qed
qed

lemma m_seq_Cons_set:
  "set (m_seq lib (a # as) prev s)
     = (\<Union>(p, r) \<in> set (m_atom lib a prev s). set (m_seq lib as p r))"
  by auto

lemma m_seq_append_set:
  "set (m_seq lib (as @ bs) prev s)
     = (\<Union>(p, r) \<in> set (m_seq lib as prev s). set (m_seq lib bs p r))"
proof (induction as arbitrary: prev s)
  case Nil
  then show ?case by simp
next
  case (Cons a as)
  show ?case
    unfolding append_Cons m_seq_Cons_set Cons.IH by auto
qed

lemma Chr_shape:
  "(p, r) \<in> set (m_seq lib (Chr c # as) prev s) \<Longrightarrow>
     \<exists>t. s = c # t \<and> (p, r) \<in> set (m_seq lib as (Some c) t)"
  by (cases s) (auto split: if_splits)

lemma WordB_shape:
  "(p, r) \<in> set (m_seq lib (WordB # as) prev s) \<Longrightarrow>
     word_before lib prev \<noteq> word_after lib s \<and> (p, r) \<in> set (m_seq lib as prev s)"
  by (auto split: if_splits)

lemma Plus_shape:
  "(p, r) \<in> set (m_seq lib (Plus C # as) prev s) \<Longrightarrow>
     \<exists>xs t. xs \<noteq> [] \<and> s = xs @ t \<and> (\<forall>x \<in> set xs. in_class lib C x)
        \<and> (p, r) \<in> set (m_seq lib as (Some (last xs)) t)"
proof -
  assume "(p, r) \<in> set (m_seq lib (Plus C # as) prev s)"
  then obtain q t where a: "(q, t) \<in> set (m_atom lib (Plus C) prev s)"
    and b: "(p, r) \<in> set (m_seq lib as q t)"
    unfolding m_seq_Cons_set by auto
  from a obtain c cs where s: "s = c # cs" and c: "in_class lib C c"
    and sp: "(q, t) \<in> set (spans (in_class lib C) (Some c) cs)"
    by (cases s) (auto split: if_splits)
  from spans_shape [OF sp] obtain xs where "cs = xs @ t" and "\<forall>x \<in> set xs. in_class lib C x"
    and "q = (if xs = [] then Some c else Some (last xs))"
    by blast
  with s c b show ?thesis
    by (intro exI [of _ "c # xs"] exI [of _ t]) auto
qed

lemma Star_shape:
  "(p, r) \<in> set (m_seq lib (Star C # as) prev s) \<Longrightarrow>
     \<exists>xs t. s = xs @ t \<and> (\<forall>x \<in> set xs. in_class lib C x)
        \<and> (p, r) \<in> set (m_seq lib as (if xs = [] then prev else Some (last xs)) t)"
proof -
  assume "(p, r) \<in> set (m_seq lib (Star C # as) prev s)"
  then obtain q t where a: "(q, t) \<in> set (spans (in_class lib C) prev s)"
    and b: "(p, r) \<in> set (m_seq lib as q t)"
    unfolding m_seq_Cons_set by auto
  from spans_shape [OF a] b show ?thesis by blast
qed

lemma function_pattern_shape:
  assumes "(p, r) \<in> set (m_seq lib function_pattern prev s)"
  shows "word_before lib prev \<noteq> word_after lib s \<and> p = Some 40
       \<and> (\<exists>ws nm ws2. s = [100, 101, 102] @ ws @ nm @ ws2 @ 40 # r
            \<and> ws \<noteq> [] \<and> (\<forall>x \<in> set ws. is_space x)
            \<and> nm \<noteq> [] \<and> (\<forall>x \<in> set nm. is_word lib x)
            \<and> (\<forall>x \<in> set ws2. is_space x))"
proof -
  have pat: "function_pattern
      = [WordB, Chr 100, Chr 101, Chr 102, Plus Space, Plus Word, Star Space, Chr 40]"
    by (simp add: function_pattern_def chars_def lit_def)
  note a = assms [unfolded pat]
  from WordB_shape [OF a] have b: "word_before lib prev \<noteq> word_after lib s"
    and 1: "(p, r) \<in> set (m_seq lib
              [Chr 100, Chr 101, Chr 102, Plus Space, Plus Word, Star Space, Chr 40] prev s)"
    by blast+
  from Chr_shape [OF 1] obtain t1 where s1: "s = 100 # t1"
    and 2: "(p, r) \<in> set (m_seq lib
              [Chr 101, Chr 102, Plus Space, Plus Word, Star Space, Chr 40] (Some 100) t1)"
    by blast
  from Chr_shape [OF 2] obtain t2 where s2: "t1 = 101 # t2"
    and 3: "(p, r) \<in> set (m_seq lib
              [Chr 102, Plus Space, Plus Word, Star Space, Chr 40] (Some 101) t2)"
    by blast
  from Chr_shape [OF 3] obtain t3 where s3: "t2 = 102 # t3"
    and 4: "(p, r) \<in> set (m_seq lib [Plus Space, Plus Word, Star Space, Chr 40] (Some 102) t3)"
    by blast
  from Plus_shape [OF 4] obtain ws t4 where ws: "ws \<noteq> []" "\<forall>x \<in> set ws. is_space x"
    and s4: "t3 = ws @ t4"
    and 5: "(p, r) \<in> set (m_seq lib [Plus Word, Star Space, Chr 40] (Some (last ws)) t4)"
    by (auto simp del: m_seq.simps)
  from Plus_shape [OF 5] obtain nm t5 where nm: "nm \<noteq> []" "\<forall>x \<in> set nm. is_word lib x"
    and s5: "t4 = nm @ t5"
    and 6: "(p, r) \<in> set (m_seq lib [Star Space, Chr 40] (Some (last nm)) t5)"
    by (auto simp del: m_seq.simps)
  from Star_shape [OF 6] obtain ws2 t6 where ws2: "\<forall>x \<in> set ws2. is_space x"
    and s6: "t5 = ws2 @ t6"
    and 7: "(p, r) \<in> set (m_seq lib [Chr 40]
              (if ws2 = [] then Some (last nm) else Some (last ws2)) t6)"
    by (auto simp del: m_seq.simps)
  from Chr_shape [OF 7] have s7: "t6 = 40 # r" and p: "p = Some 40"
    by auto
  have "s = [100, 101, 102] @ ws @ nm @ ws2 @ 40 # r"
    by (simp add: s1 s2 s3 s4 s5 s6 s7)
  with b p ws nm ws2 show ?thesis by blast
qed

lemma dropWhile_run:
  "(\<forall>x \<in> set xs. P x) \<Longrightarrow> t = [] \<or> \<not> P (hd t) \<Longrightarrow> dropWhile P (xs @ t) = t"
proof (induction xs)
  case Nil
  then show ?case by (cases t) auto
next
  case (Cons x xs)
  then show ?case by simp
qed

lemma space_not_word:
  assumes "\<forall>c. is_space c \<longrightarrow> \<not> isalnum lib c" and "is_space x"
  shows "\<not> is_word lib x"
proof -
  have "\<not> is_space 95"
    by (simp add: is_space_def)
  with assms(2) have "x \<noteq> 95" by blast
  moreover from assms have "\<not> isalnum lib x" by blast
  ultimately show ?thesis by (simp add: is_word_def)
qed

lemma function_pattern_no_match_other_char:
  "c \<noteq> 100 \<Longrightarrow> m_seq lib function_pattern prev (c # cs) = []"
proof (rule ccontr)
  assume c: "c \<noteq> 100" and "m_seq lib function_pattern prev (c # cs) \<noteq> []"
  then obtain p r where "(p, r) \<in> set (m_seq lib function_pattern prev (c # cs))"
    by (cases "m_seq lib function_pattern prev (c # cs)") auto
  from function_pattern_shape [OF this] c show False by auto
qed

lemma function_pattern_no_match_after_word:
  assumes "isalnum lib 100" and "is_word lib q"
  shows "m_seq lib function_pattern (Some q) s = []"
proof (rule ccontr)
  assume "m_seq lib function_pattern (Some q) s \<noteq> []"
  then obtain p r where "(p, r) \<in> set (m_seq lib function_pattern (Some q) s)"
    by (cases "m_seq lib function_pattern (Some q) s") auto
  from function_pattern_shape [OF this]
  have "word_before lib (Some q) \<noteq> word_after lib s" and "\<exists>t. s = 100 # t"
    by auto
  with assms show False
    by (auto simp: word_before_def word_after_def is_word_def)
qed

lemma function_pattern_no_match_at_name:
  assumes d: "isalnum lib 100" "isalnum lib 101" "isalnum lib 102"
    and paren: "\<not> isalnum lib 40"
    and sp: "\<forall>c. is_space c \<longrightarrow> \<not> isalnum lib c"
    and nm: "\<forall>x \<in> set nm. is_word lib x"
    and ws2: "\<forall>x \<in> set ws2. is_space x"
  shows "m_seq lib function_pattern prev (nm @ ws2 @ 40 # r) = []"
proof (rule ccontr)
  let ?s = "nm @ ws2 @ 40 # r"
  assume "m_seq lib function_pattern prev ?s \<noteq> []"
  then obtain p' r' where "(p', r') \<in> set (m_seq lib function_pattern prev ?s)"
    by (cases "m_seq lib function_pattern prev ?s") auto
  from function_pattern_shape [OF this] obtain ws' nm' ws2'
    where s: "?s = [100, 101, 102] @ ws' @ nm' @ ws2' @ 40 # r'"
      and ws': "ws' \<noteq> []" "\<forall>x \<in> set ws'. is_space x"
      and nm': "nm' \<noteq> []" "\<forall>x \<in> set nm'. is_word lib x"
    by blast
  have w40: "\<not> is_word lib 40"
    using paren by (simp add: is_word_def)
  have s40: "\<not> is_space 40"
    by (simp add: is_space_def)
  have "\<not> is_word lib (hd (ws2 @ 40 # r))"
    using ws2 w40 sp by (cases ws2) (auto dest: space_not_word)
  then have 1: "dropWhile (is_word lib) ?s = ws2 @ 40 # r"
    using nm by (intro dropWhile_run) auto
  have "\<not> is_word lib (hd (ws' @ nm' @ ws2' @ 40 # r'))"
    using ws' sp by (cases ws') (auto dest: space_not_word)
  then have "dropWhile (is_word lib) ([100, 101, 102] @ ws' @ nm' @ ws2' @ 40 # r')
      = ws' @ nm' @ ws2' @ 40 # r'"
    using d by (intro dropWhile_run) (auto simp: is_word_def)
  with 1 s have 2: "ws2 @ 40 # r = ws' @ nm' @ ws2' @ 40 # r'"
    by simp
  have 3: "dropWhile is_space (ws2 @ 40 # r) = 40 # r"
    using ws2 s40 by (intro dropWhile_run) auto
  have "\<not> is_space (hd (nm' @ ws2' @ 40 # r'))"
    using nm' sp by (cases nm') (auto dest: space_not_word)
  then have "dropWhile is_space (ws' @ nm' @ ws2' @ 40 # r') = nm' @ ws2' @ 40 # r'"
    using ws' by (intro dropWhile_run) auto
  with 2 3 have "40 # r = nm' @ ws2' @ 40 # r'"
    by simp
  with nm' have "is_word lib 40"
    by (cases nm') auto
  with w40 show False by simp
qed

lemma function_pattern_rest_unique:
  assumes paren: "\<not> isalnum lib 40"
    and sp: "\<forall>c. is_space c \<longrightarrow> \<not> isalnum lib c"
    and s: "s = [100, 101, 102] @ ws @ nm @ ws2 @ 40 # r"
    and ws: "\<forall>x \<in> set ws. is_space x"
    and nm: "nm \<noteq> []" "\<forall>x \<in> set nm. is_word lib x"
    and ws2: "\<forall>x \<in> set ws2. is_space x"
  shows "tl (dropWhile is_space (dropWhile (is_word lib) (dropWhile is_space (drop 3 s)))) = r"
proof -
  have w40: "\<not> is_word lib 40"
    using paren by (simp add: is_word_def)
  have s40: "\<not> is_space 40"
    by (simp add: is_space_def)
  have "\<not> is_space (hd (nm @ ws2 @ 40 # r))"
    using nm sp by (cases nm) (auto dest: space_not_word)
  then have 1: "dropWhile is_space (ws @ nm @ ws2 @ 40 # r) = nm @ ws2 @ 40 # r"
    using ws by (intro dropWhile_run) auto
  have "\<not> is_word lib (hd (ws2 @ 40 # r))"
    using ws2 w40 sp by (cases ws2) (auto dest: space_not_word)
  then have 2: "dropWhile (is_word lib) (nm @ ws2 @ 40 # r) = ws2 @ 40 # r"
    using nm by (intro dropWhile_run) auto
  have 3: "dropWhile is_space (ws2 @ 40 # r) = 40 # r"
    using ws2 s40 by (intro dropWhile_run) auto
  show ?thesis
    by (simp add: s 1 2 3)
qed

lemma function_pattern_match_unique:
  assumes "\<not> isalnum lib 40" and "\<forall>c. is_space c \<longrightarrow> \<not> isalnum lib c"
    and "(p, r) \<in> set (m_seq lib function_pattern prev s)"
    and "(p', r') \<in> set (m_seq lib function_pattern prev s)"
  shows "r = r' \<and> p = p'"
proof -
  from function_pattern_shape [OF assms(3)] obtain ws nm ws2
    where "s = [100, 101, 102] @ ws @ nm @ ws2 @ 40 # r" "\<forall>x \<in> set ws. is_space x"
      "nm \<noteq> []" "\<forall>x \<in> set nm. is_word lib x" "\<forall>x \<in> set ws2. is_space x" and p: "p = Some 40"
    by blast
  from function_pattern_rest_unique [OF assms(1,2) this(1-5)]
  have 1: "tl (dropWhile is_space (dropWhile (is_word lib) (dropWhile is_space (drop 3 s)))) = r" .
  from function_pattern_shape [OF assms(4)] obtain ws' nm' ws2'
    where "s = [100, 101, 102] @ ws' @ nm' @ ws2' @ 40 # r'" "\<forall>x \<in> set ws'. is_space x"
      "nm' \<noteq> []" "\<forall>x \<in> set nm'. is_word lib x" "\<forall>x \<in> set ws2'. is_space x"
      and p': "p' = Some 40"
    by blast
  from function_pattern_rest_unique [OF assms(1,2) this(1-5)]
  have "tl (dropWhile is_space (dropWhile (is_word lib) (dropWhile is_space (drop 3 s)))) = r'" .
  with 1 p p' show ?thesis by simp
qed

lemma function_count_run_other:
  "\<forall>x \<in> set xs. x \<noteq> 100 \<Longrightarrow>
   findall_count lib function_pattern prev (xs @ t)
     = findall_count lib function_pattern (if xs = [] then prev else Some (last xs)) t"
proof (induction xs arbitrary: prev)
  case Nil
  then show ?case by simp
next
  case (Cons x xs)
  have "findall_count lib function_pattern prev ((x # xs) @ t)
      = findall_count lib function_pattern (Some x) (xs @ t)"
    using Cons.prems
    by (simp add: findall_count_skip function_pattern_no_match_other_char)
  also have "\<dots> = findall_count lib function_pattern
                      (if xs = [] then Some x else Some (last xs)) t"
    using Cons.prems by (intro Cons.IH) simp
  finally show ?case by simp
qed

lemma function_count_run_word:
  assumes "isalnum lib 100"
  shows "is_word lib q \<Longrightarrow> \<forall>x \<in> set xs. is_word lib x \<Longrightarrow>
   findall_count lib function_pattern (Some q) (xs @ t)
     = findall_count lib function_pattern (Some (last (q # xs))) t"
proof (induction xs arbitrary: q)
  case Nil
  then show ?case by simp
next
  case (Cons x xs)
  have "findall_count lib function_pattern (Some q) ((x # xs) @ t)
      = findall_count lib function_pattern (Some x) (xs @ t)"
    using Cons.prems(1) assms
    by (simp add: findall_count_skip function_pattern_no_match_after_word)
  also have "\<dots> = findall_count lib function_pattern (Some (last (x # xs))) t"
    using Cons.prems by (intro Cons.IH) simp_all
  finally show ?case by simp
qed

lemma function_count_skip_match:
  assumes d: "isalnum lib 100" "isalnum lib 101" "isalnum lib 102"
    and paren: "\<not> isalnum lib 40"
    and sp: "\<forall>c. is_space c \<longrightarrow> \<not> isalnum lib c"
    and m: "(p, r) \<in> set (m_seq lib function_pattern prev s)"
  shows "findall_count lib function_pattern (Some 100) (tl s)
       = findall_count lib function_pattern (Some 40) r"
proof -
  from function_pattern_shape [OF m] obtain ws nm ws2
    where s: "s = [100, 101, 102] @ ws @ nm @ ws2 @ 40 # r"
      and ws: "ws \<noteq> []" "\<forall>x \<in> set ws. is_space x"
      and nm: "nm \<noteq> []" "\<forall>x \<in> set nm. is_word lib x"
      and ws2: "\<forall>x \<in> set ws2. is_space x"
    by blast
  from nm obtain n0 nm' where nm0: "nm = n0 # nm'"
    by (cases nm) auto
  have s100: "\<not> is_space 100"
    by (simp add: is_space_def)
  have "tl s = ([101, 102] @ ws) @ nm @ ws2 @ 40 # r"
    by (simp add: s)
  moreover have "\<forall>x \<in> set ([101, 102] @ ws). x \<noteq> 100"
    using ws s100 by auto
  ultimately have "findall_count lib function_pattern (Some 100) (tl s)
      = findall_count lib function_pattern (Some (last ws)) (nm @ ws2 @ 40 # r)"
    using ws(1) by (simp only: function_count_run_other) simp
  also have "\<dots> = findall_count lib function_pattern (Some n0) (nm' @ ws2 @ 40 # r)"
    using function_pattern_no_match_at_name [OF d paren sp nm(2) ws2, of "Some (last ws)" r]
    by (simp add: nm0 findall_count_skip)
  also have "\<dots> = findall_count lib function_pattern (Some (last (n0 # nm'))) (ws2 @ 40 # r)"
    using nm(2) by (intro function_count_run_word [OF d(1)]) (simp_all add: nm0)
  also have "\<dots> = findall_count lib function_pattern (Some (last (n0 # nm')))
                      ((ws2 @ [40]) @ r)"
    by simp
  also have "\<dots> = findall_count lib function_pattern (Some 40) r"
  proof -
    have "\<forall>x \<in> set (ws2 @ [40]). x \<noteq> 100"
      using ws2 s100 by auto
    then show ?thesis
      by (simp only: function_count_run_other) simp
  qed
  finally show ?thesis .
qed

lemma function_count_drop_char:
  assumes d: "isalnum lib 100" "isalnum lib 101" "isalnum lib 102"
    and paren: "\<not> isalnum lib 40"
    and sp: "\<forall>c. is_space c \<longrightarrow> \<not> isalnum lib c"
  shows "findall_count lib function_pattern (Some c) cs
       \<le> findall_count lib function_pattern prev (c # cs)"
proof (cases "m_seq lib function_pattern prev (c # cs)")
  case Nil
  then show ?thesis by (simp add: findall_count_skip)
next
  case (Cons a others)
  obtain p r where a: "a = (p, r)" by (cases a)
  with Cons have m: "(p, r) \<in> set (m_seq lib function_pattern prev (c # cs))"
    by simp
  from function_pattern_shape [OF m] have len: "length r < length (c # cs)"
    and c: "c = 100" and p: "p = Some 40"
    by auto
  have "findall_count lib function_pattern prev (c # cs)
      = Suc (findall_count lib function_pattern p r)"
    using Cons len unfolding a by (rule findall_count_match)
  moreover have "findall_count lib function_pattern (Some 100) (tl (c # cs))
      = findall_count lib function_pattern (Some 40) r"
    using d paren sp m by (rule function_count_skip_match)
  ultimately show ?thesis
    using c p by simp
qed

lemma function_count_drop_run:
  assumes d: "isalnum lib 100" "isalnum lib 101" "isalnum lib 102"
    and paren: "\<not> isalnum lib 40"
    and sp: "\<forall>c. is_space c \<longrightarrow> \<not> isalnum lib c"
  shows "findall_count lib function_pattern (if xs = [] then prev else Some (last xs)) t
       \<le> findall_count lib function_pattern prev (xs @ t)"
proof (induction xs arbitrary: prev)
  case Nil
  then show ?case by simp
next
  case (Cons x xs)
  have "findall_count lib function_pattern (if xs = [] then Some x else Some (last xs)) t
      \<le> findall_count lib function_pattern (Some x) (xs @ t)"
    by (rule Cons.IH)
  also have "\<dots> \<le> findall_count lib function_pattern prev (x # xs @ t)"
    using d paren sp by (rule function_count_drop_char)
  finally show ?case by (cases "xs = []") simp_all
qed

lemma method_pattern_split: "method_pattern = function_pattern @ map Chr [115, 101, 108, 102]"
  by (simp add: method_pattern_def function_pattern_def chars_def lit_def)

lemma self_shape:
  assumes "(p, r) \<in> set (m_seq lib (map Chr [115, 101, 108, 102]) q t)"
  shows "t = [115, 101, 108, 102] @ r \<and> p = Some 102"
proof -
  from assms have 1: "(p, r) \<in> set (m_seq lib [Chr 115, Chr 101, Chr 108, Chr 102] q t)"
    by simp
  from Chr_shape [OF 1] obtain t1 where s1: "t = 115 # t1"
    and 2: "(p, r) \<in> set (m_seq lib [Chr 101, Chr 108, Chr 102] (Some 115) t1)"
    by blast
  from Chr_shape [OF 2] obtain t2 where s2: "t1 = 101 # t2"
    and 3: "(p, r) \<in> set (m_seq lib [Chr 108, Chr 102] (Some 101) t2)"
    by blast
  from Chr_shape [OF 3] obtain t3 where s3: "t2 = 108 # t3"
    and 4: "(p, r) \<in> set (m_seq lib [Chr 102] (Some 108) t3)"
    by blast
  from Chr_shape [OF 4] have "t3 = 102 # r" and "p = Some 102"
    by auto
  with s1 s2 s3 show ?thesis by simp
qed

lemma methods_le_functions_count:
  assumes d: "isalnum lib 100" "isalnum lib 101" "isalnum lib 102"
    and paren: "\<not> isalnum lib 40"
    and sp: "\<forall>c. is_space c \<longrightarrow> \<not> isalnum lib c"
  shows "findall_count lib method_pattern prev s \<le> findall_count lib function_pattern prev s"
proof (induction "length s" arbitrary: prev s rule: less_induct)
  case less
  show ?case
  proof (cases "m_seq lib method_pattern prev s")
    case Nil
    show ?thesis
    proof (cases s)
      case Nil
      with \<open>m_seq lib method_pattern prev s = []\<close> show ?thesis
        by (simp add: findall_count_Nil)
    next
      case (Cons c cs)
      have "findall_count lib method_pattern prev s = findall_count lib method_pattern (Some c) cs"
        using Nil Cons by (simp add: findall_count_skip)
      also have "\<dots> \<le> findall_count lib function_pattern (Some c) cs"
        using Cons by (intro less) simp
      also have "\<dots> \<le> findall_count lib function_pattern prev (c # cs)"
        using d paren sp by (rule function_count_drop_char)
      finally show ?thesis using Cons by simp
    qed
  next
    case (Cons a others2)
    obtain p2 r2 where a: "a = (p2, r2)" by (cases a)
    with Cons have "(p2, r2) \<in> set (m_seq lib method_pattern prev s)"
      by simp
    then obtain p1' r1' where m1': "(p1', r1') \<in> set (m_seq lib function_pattern prev s)"
      and m2: "(p2, r2) \<in> set (m_seq lib (map Chr [115, 101, 108, 102]) p1' r1')"
      unfolding method_pattern_split m_seq_append_set by auto
    from self_shape [OF m2] have r1': "r1' = [115, 101, 108, 102] @ r2" and p2: "p2 = Some 102"
      by auto
    from m1' obtain b others1 where ms1: "m_seq lib function_pattern prev s = b # others1"
      by (cases "m_seq lib function_pattern prev s") auto
    obtain p1 r1 where b: "b = (p1, r1)" by (cases b)
    with ms1 have m1: "(p1, r1) \<in> set (m_seq lib function_pattern prev s)"
      by simp
    from function_pattern_match_unique [OF paren sp m1 m1'] have r1: "r1 = r1'"
      by simp
    from function_pattern_shape [OF m1] have len1: "length r1 < length s" and p1: "p1 = Some 40"
      by auto
    have len2: "length r2 < length s"
      using len1 r1 r1' by simp
    have "findall_count lib method_pattern prev s = Suc (findall_count lib method_pattern p2 r2)"
      using Cons len2 unfolding a by (rule findall_count_match)
    also have "findall_count lib method_pattern p2 r2 \<le> findall_count lib function_pattern p2 r2"
      using len2 by (rule less)
    also have "findall_count lib function_pattern p2 r2
        \<le> findall_count lib function_pattern (Some 40) ([115, 101, 108, 102] @ r2)"
      using function_count_drop_run [OF d paren sp, of "[115, 101, 108, 102]" "Some 40" r2] p2
      by simp
    also have "Suc (findall_count lib function_pattern (Some 40) ([115, 101, 108, 102] @ r2))
        = findall_count lib function_pattern prev s"
      using findall_count_match [OF ms1 [unfolded b] len1] p1 r1 r1' by simp
    finally show ?thesis by simp
  qed
qed

text \<open>
  Claim C9. In every record \<open>analyze_file\<close> produces, the \<open>methods\<close> count is at most the
  \<open>functions\<close> count. The method pattern is the function pattern followed by \<open>self\<close>;
  a match of the function pattern is determined by where it starts, and no other match
  starts inside it, so \<open>findall\<close> skips no function match; every method match starts
  where a function match starts. The proof uses of the Unicode tables only that
  \<open>d\<close>, \<open>e\<close>, \<open>f\<close> are alphanumeric, that \<open>(\<close> is not, and that no white space is.
\<close>

theorem method_count_at_most_function_count:
  assumes "isalnum lib 100" and "isalnum lib 101" and "isalnum lib 102"
    and "\<not> isalnum lib 40"
    and "\<forall>c. is_space c \<longrightarrow> \<not> isalnum lib c"
    and "analyze_file lib cfg root base p = Some r"
  shows "methods r \<le> functions' r"
proof -
  from assms(6) obtain body where "methods r = findall_len lib method_pattern body"
    and "functions' r = findall_len lib function_pattern body"
    by (auto simp: analyze_file_def Let_def split: if_splits)
  then show ?thesis
    using methods_le_functions_count [OF assms(1-5)] by (simp add: findall_len_def)
qed

theorem method_count_at_most_function_count_witness:
  "map_option (\<lambda>r. (methods r, functions' r))
     (analyze_file sample_lib DEFAULT_CONFIG c9_root [lit ''proj''] [lit ''proj'', lit ''m.py''])
     = Some (1, 2)
   \<and> methods (the (analyze_file sample_lib DEFAULT_CONFIG c9_root [lit ''proj'']
                      [lit ''proj'', lit ''m.py'']))
       \<le> functions' (the (analyze_file sample_lib DEFAULT_CONFIG c9_root [lit ''proj'']
                      [lit ''proj'', lit ''m.py'']))"
proof -
  let ?a = "analyze_file sample_lib DEFAULT_CONFIG c9_root [lit ''proj''] [lit ''proj'', lit ''m.py'']"
  have c: "read_file_content sample_lib DEFAULT_CONFIG
             (node_at c9_root [lit ''proj''] [lit ''proj'', lit ''m.py''])
           = lit ''def f(self):\<newline>def g(x):''"
    by (simp add: read_file_content_def node_at_def c9_root_def sample_file_def
          DEFAULT_CONFIG_def lit_def)
  have m: "findall_len sample_lib method_pattern (lit ''def f(self):\<newline>def g(x):'') = 1"
    by (simp add: findall_len_def findall_count.simps method_pattern_def chars_def lit_def
          sample_lib_def is_word_def is_space_def ascii_alnum_def word_before_def
          word_after_def)
  have f: "findall_len sample_lib function_pattern (lit ''def f(self):\<newline>def g(x):'') = 2"
    by (simp add: findall_len_def findall_count.simps function_pattern_def chars_def lit_def
          sample_lib_def is_word_def is_space_def ascii_alnum_def word_before_def
          word_after_def)
  have ne: "lit ''def f(self):\<newline>def g(x):'' \<noteq> []"
    by (simp add: lit_def)
  have v: "map_option (\<lambda>r. (methods r, functions' r)) ?a = Some (1, 2)"
    using ne by (simp add: analyze_file_def c Let_def m f)
  then obtain r where r: "?a = Some r"
    by (cases ?a) auto
  have h: "isalnum sample_lib 100" "isalnum sample_lib 101" "isalnum sample_lib 102"
    "\<not> isalnum sample_lib 40"
    by (simp_all add: sample_lib_def ascii_alnum_def)
  have s: "\<forall>c. is_space c \<longrightarrow> \<not> isalnum sample_lib c"
    by (simp add: sample_lib_def ascii_alnum_def is_space_def)
  from method_count_at_most_function_count [OF h s r] r v show ?thesis
    by simp
qed

end
